theory Spec2Isabelle
  imports Main "HOL-Library.Sublist" "HOL-Library.AList"
begin

section \<open>Byte slices: the functions of package \<open>bytes\<close> that \<open>main.go\<close> calls\<close>

text \<open>
  A Go \<open>[]byte\<close> and a Go \<open>string\<close> are both modelled as \<open>string\<close>, a list of
  8-bit characters. \<open>bytes.Index\<close> returns the position of the first occurrence of
  \<open>sep\<close>, or \<open>-1\<close>; the result is an \<open>int\<close> as in Go, because \<open>handleConnection\<close>
  compares it with \<open>0\<close> in both directions.
\<close>

fun bytes_Index :: "string \<Rightarrow> string \<Rightarrow> int" where
  "bytes_Index [] sep = (if sep = [] then 0 else - 1)"
| "bytes_Index (c # s) sep =
     (if prefix sep (c # s) then 0
      else (let i = bytes_Index s sep in if i < 0 then - 1 else i + 1))"

definition bytes_Contains :: "string \<Rightarrow> string \<Rightarrow> bool" where
  "bytes_Contains b subslice = (bytes_Index b subslice \<noteq> - 1)"

text \<open>
  \<open>bytes.SplitN(s, sep, n)\<close> for \<open>n > 0\<close> and a non-empty separator (the only way
  \<open>injectPlatform\<close> calls it): \<open>genSplit\<close> cuts at the first \<open>n - 1\<close> separators and
  keeps the unsplit remainder as the last part. The \<open>nat\<close> argument of \<open>genSplit\<close> is
  the number of cuts still allowed (\<open>n - 1 - i\<close> in the Go loop).
\<close>

fun genSplit :: "string \<Rightarrow> string \<Rightarrow> nat \<Rightarrow> string list" where
  "genSplit s sep 0 = [s]"
| "genSplit s sep (Suc k) =
     (let m = bytes_Index s sep in
      if m < 0 then [s]
      else take (nat m) s # genSplit (drop (nat m + length sep) s) sep k)"

definition bytes_SplitN :: "string \<Rightarrow> string \<Rightarrow> nat \<Rightarrow> string list" where
  "bytes_SplitN s sep n = (if n = 0 then [] else genSplit s sep (n - 1))"

fun bytes_Join :: "string list \<Rightarrow> string \<Rightarrow> string" where
  "bytes_Join [] sep = []"
| "bytes_Join [x] sep = x"
| "bytes_Join (x # y # r) sep = x @ sep @ bytes_Join (y # r) sep"


section \<open>Package \<open>net/url\<close> (Go 1.14, the toolchain of the repository's Dockerfile)\<close>

text \<open>
  \<open>net/url\<close> belongs to the Go standard library, not to this repository. The functions
  below follow the library's source for the two escaping modes \<open>injectPlatform\<close>
  reaches on an origin-form request target: \<open>encodePath\<close> and
  \<open>encodeQueryComponent\<close>.
\<close>

datatype encoding = encodePath | encodeQueryComponent

datatype url_error =
    InvalidControlCharacter
  | EscapeError string
  | OtherParseError string

definition byte_in :: "char \<Rightarrow> char \<Rightarrow> char \<Rightarrow> bool" where
  "byte_in lo c hi = ((of_char lo :: nat) \<le> of_char c \<and> (of_char c :: nat) \<le> of_char hi)"

definition ishex :: "char \<Rightarrow> bool" where
  "ishex c = (byte_in CHR ''0'' c CHR ''9'' \<or> byte_in CHR ''a'' c CHR ''f''
              \<or> byte_in CHR ''A'' c CHR ''F'')"

definition unhex :: "char \<Rightarrow> nat" where
  "unhex c =
     (if byte_in CHR ''0'' c CHR ''9'' then of_char c - of_char CHR ''0''
      else if byte_in CHR ''a'' c CHR ''f'' then of_char c - of_char CHR ''a'' + 10
      else if byte_in CHR ''A'' c CHR ''F'' then of_char c - of_char CHR ''A'' + 10
      else 0)"

definition upperhex :: string where
  "upperhex = ''0123456789ABCDEF''"

text \<open>
  \<open>shouldEscape(c, mode)\<close>: alphanumerics and the marks \<open>- _ . ~\<close> are never escaped;
  of the reserved characters \<open>$ & + , / : ; = ? @\<close> a path escapes only \<open>?\<close> and a
  query component escapes every one; everything else is escaped.
\<close>

definition shouldEscape :: "char \<Rightarrow> encoding \<Rightarrow> bool" where
  "shouldEscape c mode =
     (if byte_in CHR ''a'' c CHR ''z'' \<or> byte_in CHR ''A'' c CHR ''Z''
         \<or> byte_in CHR ''0'' c CHR ''9'' then False
      else if c \<in> set ''-_.~'' then False
      else if c \<in> set ''$&+,/:;=?@'' then
        (case mode of encodePath \<Rightarrow> c = CHR ''?'' | encodeQueryComponent \<Rightarrow> True)
      else True)"

definition escape_byte :: "encoding \<Rightarrow> char \<Rightarrow> string" where
  "escape_byte mode c =
     (if shouldEscape c mode then
        (if c = CHR '' '' \<and> mode = encodeQueryComponent then ''+''
         else [CHR ''%'', upperhex ! (of_char c div 16), upperhex ! (of_char c mod 16)])
      else [c])"

definition escape :: "string \<Rightarrow> encoding \<Rightarrow> string" where
  "escape s mode = concat (map (escape_byte mode) s)"

text \<open>
  \<open>unescape(s, mode)\<close>. The library validates every \<open>%\<close> in a first pass and decodes
  in a second one; in these two modes a malformed \<open>%\<close> escape is the only error, so one
  pass from the left reports the same first error, \<open>EscapeError\<close> of at most three
  bytes starting at the \<open>%\<close>.
\<close>

definition unescape_plain :: "encoding \<Rightarrow> char \<Rightarrow> char" where
  "unescape_plain mode c =
     (if c = CHR ''+'' \<and> mode = encodeQueryComponent then CHR '' '' else c)"

fun unescape :: "string \<Rightarrow> encoding \<Rightarrow> url_error + string" where
  "unescape [] mode = Inr []"
| "unescape [c] mode =
     (if c = CHR ''%'' then Inl (EscapeError [c]) else Inr [unescape_plain mode c])"
| "unescape [c, a] mode =
     (if c = CHR ''%'' then Inl (EscapeError [c, a])
      else (case unescape [a] mode of Inl e \<Rightarrow> Inl e
            | Inr t \<Rightarrow> Inr (unescape_plain mode c # t)))"
| "unescape (c # a # b # s) mode =
     (if c = CHR ''%'' then
        (if ishex a \<and> ishex b then
           (case unescape s mode of Inl e \<Rightarrow> Inl e
            | Inr t \<Rightarrow> Inr (char_of (16 * unhex a + unhex b) # t))
         else Inl (EscapeError [c, a, b]))
      else (case unescape (a # b # s) mode of Inl e \<Rightarrow> Inl e
            | Inr t \<Rightarrow> Inr (unescape_plain mode c # t)))"

definition QueryEscape :: "string \<Rightarrow> string" where
  "QueryEscape s = escape s encodeQueryComponent"

definition QueryUnescape :: "string \<Rightarrow> url_error + string" where
  "QueryUnescape s = unescape s encodeQueryComponent"

subsection \<open>\<open>url.Values\<close>\<close>

text \<open>
  \<open>Values\<close> is \<open>map[string][]string\<close>: an association list with one entry per key.
  Go iterates a map in no fixed order, but \<open>Encode\<close> sorts the keys first, so the
  order of the entries never shows.
\<close>

type_synonym Values = "(string \<times> string list) list"

definition Values_get :: "Values \<Rightarrow> string \<Rightarrow> string list" where
  "Values_get v key = (case map_of v key of None \<Rightarrow> [] | Some vs \<Rightarrow> vs)"

definition Values_Add :: "Values \<Rightarrow> string \<Rightarrow> string \<Rightarrow> Values" where
  "Values_Add v key val = AList.update key (Values_get v key @ [val]) v"

definition Values_Del :: "Values \<Rightarrow> string \<Rightarrow> Values" where
  "Values_Del v key = AList.delete key v"

text \<open>Go compares strings byte by byte; \<open>sort.Strings\<close> sorts in that order.\<close>

fun string_less :: "string \<Rightarrow> string \<Rightarrow> bool" where
  "string_less xs [] = False"
| "string_less [] (y # ys) = True"
| "string_less (x # xs) (y # ys) =
     ((of_char x :: nat) < of_char y \<or> (x = y \<and> string_less xs ys))"

fun insert_string :: "string \<Rightarrow> string list \<Rightarrow> string list" where
  "insert_string k [] = [k]"
| "insert_string k (x # xs) =
     (if string_less x k then x # insert_string k xs else k # x # xs)"

definition sort_Strings :: "string list \<Rightarrow> string list" where
  "sort_Strings ks = foldr insert_string ks []"

text \<open>
  \<open>Values.Encode\<close>: for each key in sorted order and each of its values, an \<open>&\<close> when
  the buffer is not empty, then the escaped key, \<open>=\<close>, the escaped value.
\<close>

definition Encode_value :: "string \<Rightarrow> string \<Rightarrow> string \<Rightarrow> string" where
  "Encode_value keyEscaped buf val =
     (if buf \<noteq> [] then buf @ ''&'' else buf) @ keyEscaped @ ''='' @ QueryEscape val"

definition Encode_key :: "Values \<Rightarrow> string \<Rightarrow> string \<Rightarrow> string" where
  "Encode_key v buf k = foldl (Encode_value (QueryEscape k)) buf (Values_get v k)"

definition Values_Encode :: "Values \<Rightarrow> string" where
  "Values_Encode v = foldl (Encode_key v) [] (sort_Strings (map fst v))"

text \<open>
  \<open>url.ParseQuery\<close> (Go 1.14): the query is cut at every \<open>&\<close> or \<open>;\<close>, empty pieces are
  skipped, a piece is cut at its first \<open>=\<close>, key and value are unescaped. A piece that
  fails to unescape is skipped and the first such error is returned beside the map.
\<close>

fun strings_IndexAny :: "string \<Rightarrow> string \<Rightarrow> int" where
  "strings_IndexAny [] chars = - 1"
| "strings_IndexAny (c # s) chars =
     (if c \<in> set chars then 0
      else (let i = strings_IndexAny s chars in if i < 0 then - 1 else i + 1))"

definition parseQuery_piece :: "Values \<times> url_error option \<Rightarrow> string \<Rightarrow> Values \<times> url_error option" where
  "parseQuery_piece acc piece =
     (let m = fst acc; err = snd acc in
      if piece = [] then (m, err)
      else
        let i = bytes_Index piece ''='';
            key = (if i \<ge> 0 then take (nat i) piece else piece);
            val = (if i \<ge> 0 then drop (nat i + 1) piece else [])
        in case QueryUnescape key of
             Inl err1 \<Rightarrow> (m, if err = None then Some err1 else err)
           | Inr key1 \<Rightarrow>
               (case QueryUnescape val of
                  Inl err1 \<Rightarrow> (m, if err = None then Some err1 else err)
                | Inr val1 \<Rightarrow> (Values_Add m key1 val1, err)))"

function parseQuery :: "Values \<times> url_error option \<Rightarrow> string \<Rightarrow> Values \<times> url_error option" where
  "parseQuery acc query =
     (if query = [] then acc
      else
        let i = strings_IndexAny query ''&;'' in
        if i \<ge> 0 then
          parseQuery (parseQuery_piece acc (take (nat i) query)) (drop (nat i + 1) query)
        else parseQuery_piece acc query)"
  by pat_completeness auto
termination
  by (relation "measure (\<lambda>(acc, query). length query)") auto

definition ParseQuery :: "string \<Rightarrow> Values \<times> url_error option" where
  "ParseQuery query = parseQuery ([], None) query"

subsection \<open>\<open>url.Parse\<close> and \<open>URL.String\<close>\<close>

text \<open>
  \<open>injectPlatform\<close> parses the request target, replaces \<open>RawQuery\<close> and prints the URL
  again. \<open>URL.String\<close> prints the query between what comes before it (scheme,
  userinfo, host, escaped path) and what comes after it (the fragment), and neither
  depends on \<open>RawQuery\<close>. The record keeps \<open>Path\<close>, \<open>RawPath\<close>, \<open>ForceQuery\<close> and
  \<open>RawQuery\<close> as the library does; \<open>Lead\<close> is what \<open>String\<close> prints before the path
  and \<open>Trail\<close> what it prints after the query.
\<close>

record URL =
  Lead :: string
  Path :: string
  RawPath :: string
  ForceQuery :: bool
  RawQuery :: string
  Trail :: string

type_synonym url_parser = "string \<Rightarrow> url_error + URL"

definition stringContainsCTLByte :: "string \<Rightarrow> bool" where
  "stringContainsCTLByte s =
     list_ex (\<lambda>b. (of_char b :: nat) < of_char CHR '' '' \<or> (of_char b :: nat) = 127) s"

definition split :: "string \<Rightarrow> string \<Rightarrow> bool \<Rightarrow> string \<times> string" where
  "split s c cutc =
     (let i = bytes_Index s c in
      if i < 0 then (s, [])
      else if cutc then (take (nat i) s, drop (nat i + length c) s)
      else (take (nat i) s, drop (nat i) s))"

fun strings_Count :: "string \<Rightarrow> char \<Rightarrow> nat" where
  "strings_Count s c = length (filter (\<lambda>b. b = c) s)"

definition validEncodedPath :: "string \<Rightarrow> bool" where
  "validEncodedPath s =
     list_all (\<lambda>b. if b \<in> set ''!$&'' then True
                    else if b = CHR 0x27 then True
                    else if b \<in> set ''()*+,;=:@[]%'' then True
                    else \<not> shouldEscape b encodePath) s"

definition setPath :: "URL \<Rightarrow> string \<Rightarrow> url_error + URL" where
  "setPath u p =
     (case unescape p encodePath of
        Inl err \<Rightarrow> Inl err
      | Inr path \<Rightarrow>
          Inr (u\<lparr>Path := path, RawPath := (if p = escape path encodePath then [] else p)\<rparr>))"

definition EscapedPath :: "URL \<Rightarrow> string" where
  "EscapedPath u =
     (if RawPath u \<noteq> [] \<and> validEncodedPath (RawPath u)
         \<and> unescape (RawPath u) encodePath = Inr (Path u) then RawPath u
      else if Path u = ''*'' then ''*''
      else escape (Path u) encodePath)"

definition URL_String :: "URL \<Rightarrow> string" where
  "URL_String u =
     Lead u @ EscapedPath u
     @ (if \<not> ForceQuery u \<and> RawQuery u = [] then [] else ''?'' @ RawQuery u)
     @ Trail u"

text \<open>
  An origin-form target (RFC 7230, 5.3.1) is an absolute path with an optional query:
  it starts with one \<open>/\<close> and has no fragment. This is the form a Docker client sends on
  the API socket. On such a target \<open>url.Parse\<close> finds no scheme (the first byte \<open>/\<close> is
  not a scheme character), no authority (the rest does not start with \<open>//\<close>) and no
  fragment, so it rejects control bytes, cuts the query off at the first \<open>?\<close> and sets
  the path.
\<close>

definition origin_form :: "string \<Rightarrow> bool" where
  "origin_form rawurl =
     (prefix ''/'' rawurl \<and> \<not> prefix ''//'' rawurl \<and> CHR ''#'' \<notin> set rawurl)"

definition empty_URL :: URL where
  "empty_URL = \<lparr>Lead = [], Path = [], RawPath = [], ForceQuery = False, RawQuery = [],
                Trail = []\<rparr>"

definition parse_origin :: "string \<Rightarrow> url_error + URL" where
  "parse_origin rawurl =
     (if stringContainsCTLByte rawurl then Inl InvalidControlCharacter
      else if suffix ''?'' rawurl \<and> strings_Count rawurl CHR ''?'' = 1 then
        setPath (empty_URL\<lparr>ForceQuery := True\<rparr>) (butlast rawurl)
      else
        (case split rawurl ''?'' True of
           (rest, rawquery) \<Rightarrow> setPath (empty_URL\<lparr>RawQuery := rawquery\<rparr>) rest))"

text \<open>
  Every other target (one with a scheme, an authority or a fragment, a relative path,
  \<open>*\<close>, the empty string) is parsed by the library code that is not modelled here; the
  parameter \<open>other\<close> stands for the library on those targets. It returns the URL with
  \<open>Lead\<close> and \<open>Trail\<close> as \<open>String\<close> will print them.
\<close>

definition url_Parse :: "url_parser \<Rightarrow> string \<Rightarrow> url_error + URL" where
  "url_Parse other rawurl = (if origin_form rawurl then parse_origin rawurl else other rawurl)"


section \<open>\<open>injectPlatform\<close> (main.go, lines 97 to 127)\<close>

datatype error = InvalidHTTPRequest | URLError url_error

definition injectPlatform :: "url_parser \<Rightarrow> string \<Rightarrow> string \<Rightarrow> error + string" where
  "injectPlatform other buffer platform =
     (let parts = bytes_SplitN buffer '' '' 3 in
      if length parts < 3 then Inl InvalidHTTPRequest
      else
        let method = parts ! 0; rawUrl = parts ! 1; version = parts ! 2 in
        case url_Parse other rawUrl of
          Inl err \<Rightarrow> Inl (URLError err)
        | Inr u \<Rightarrow>
            (case ParseQuery (RawQuery u) of
               (query, Some err) \<Rightarrow> Inl (URLError err)
             | (query, None) \<Rightarrow>
                 let query1 = (if map_of query ''platform'' \<noteq> None
                               then Values_Del query ''platform'' else query);
                     query2 = Values_Add query1 ''platform'' platform;
                     injUrl = URL_String (u\<lparr>RawQuery := Values_Encode query2\<rparr>)
                 in Inr (bytes_Join [method, injUrl, version] '' '')))"


section \<open>Connections\<close>

text \<open>
  A \<open>net.Conn\<close> is seen from the function that uses it. What the peer sends is the list
  of events the loop is run on: each event is what one pass of the loop finds, either a
  failing \<open>SetReadDeadline\<close> or the bytes and the error one \<open>Read\<close> returns. What the
  connection does with the bytes written to it is its state: the bytes accepted so far,
  and for each coming \<open>Write\<close> call whether it succeeds (\<open>None\<close>) or fails, and then
  after how many bytes at most and with which error. Once that list is used up, every
  \<open>Write\<close> succeeds.

  A \<open>Write\<close> that returns no error has accepted the whole slice. This is the contract
  of \<open>io.Writer\<close> (a \<open>Write\<close> must return a non-nil error if it returns
  \<open>n < len(p)\<close>), and both connections of a session are of type \<open>*net.UnixConn\<close>
  (line 143: \<open>net.Dial("unix", ...)\<close>; line 311: \<open>Accept\<close> on a listener of
  \<open>net.Listen("unix", ...)\<close>), whose \<open>Write\<close> goes on until the slice is written or an
  error occurs.
\<close>

datatype read_error = Timeout | EOF | ClosedConnection | OtherReadError

datatype write_error = WriteError | WriteOnClosed

datatype event = Read string "read_error option" | DeadlineError

definition failed :: "'e option \<Rightarrow> bool" where
  "failed err = (err \<noteq> None)"

record conn =
  written :: string
  script :: "(nat \<times> write_error) option list"
  closed :: bool

definition conn_Write :: "conn \<Rightarrow> string \<Rightarrow> nat \<times> write_error option \<times> conn" where
  "conn_Write c p =
     (if closed c then (0, Some WriteOnClosed, c)
      else (case script c of
              [] \<Rightarrow> (length p, None, c\<lparr>written := written c @ p\<rparr>)
            | None # rest \<Rightarrow>
                (length p, None, c\<lparr>written := written c @ p, script := rest\<rparr>)
            | Some (k, err) # rest \<Rightarrow>
                (min k (length p), Some err,
                 c\<lparr>written := written c @ take k p, script := rest\<rparr>)))"

definition conn_Close :: "conn \<Rightarrow> bool \<times> conn" where
  "conn_Close c = (if closed c then (True, c) else (False, c\<lparr>closed := True\<rparr>))"

datatype log_entry =
    Error_set_timeout
  | Error_dial
  | Info_injected
  | Warning_invalid_or_too_long
  | Warning_unable_to_inject string error
  | Error_read_client read_error
  | Error_write_docker write_error
  | Error_close_docker
  | Info_closed_client_docker
  | Error_read_docker read_error
  | Error_write_client write_error
  | Error_close_client
  | Info_closed_docker_client


section \<open>\<open>sendAll\<close> (main.go, lines 129 to 139)\<close>

text \<open>
  The loop writes \<open>*buffer\<close>, the whole slice, on every pass and counts \<open>toWrite\<close> down
  by what the call accepted. As a function of any \<open>toWrite\<close> and any slice the loop need
  not end (an empty slice never lowers \<open>toWrite\<close>), so it is partial: \<open>None\<close> is a call
  that never returns. \<open>sendAll\<close> starts it at the length of the slice, and then it always
  returns (\<open>sendAll_once\<close> below).
\<close>

partial_function (option) sendAll_loop ::
    "int \<Rightarrow> string \<Rightarrow> conn \<Rightarrow> (write_error option \<times> conn) option" where
  "sendAll_loop toWrite buffer c =
     (if toWrite > 0 then
        (case conn_Write c buffer of
           (bytesWritten, err, c') \<Rightarrow>
             if failed err then Some (err, c')
             else sendAll_loop (toWrite - int bytesWritten) buffer c')
      else Some (None, c))"

declare sendAll_loop.simps [code]

definition sendAll :: "string \<Rightarrow> conn \<Rightarrow> (write_error option \<times> conn) option" where
  "sendAll buffer c = sendAll_loop (int (length buffer)) buffer c"


section \<open>\<open>handleConnection\<close> (main.go, lines 141 to 239)\<close>

definition bufSize :: nat where
  "bufSize = 4096"

text \<open>
  The copy loop of lines 191 and 208: \<open>for i := 0; i < dirtyBytes; i++\<close>,
  \<open>buffer[i] = buffer[index+i]\<close>.
\<close>

function copy_down :: "nat \<Rightarrow> nat \<Rightarrow> nat \<Rightarrow> string \<Rightarrow> string" where
  "copy_down i dirtyBytes index buffer =
     (if i < dirtyBytes
      then copy_down (i + 1) dirtyBytes index (buffer[i := buffer ! (index + i)])
      else buffer)"
  by pat_completeness auto
termination
  by (relation "measure (\<lambda>(i, dirtyBytes, index, buffer). dirtyBytes - i)") auto

text \<open>
  Lines 180 to 217, the scan of the window \<open>buffer[:bytesRead]\<close>. The result is the
  slice to send (\<open>readBuf\<close>), the buffer, the new \<open>dirtyBytes\<close> and what was logged at
  level INFO or above. The position of \<open>POST\<close> is searched in the whole \<open>buffer\<close>, as
  line 183 does.
\<close>

definition scan :: "url_parser \<Rightarrow> string \<Rightarrow> string \<Rightarrow> nat
    \<Rightarrow> string \<times> string \<times> nat \<times> log_entry list" where
  "scan other platform buffer bytesRead =
     (let readBuf = take bytesRead buffer in
      if bytes_Contains readBuf ''POST'' \<and> bytes_Contains readBuf ''/images/create'' then
        let index = bytes_Index buffer ''POST'' in
        if index > 0 then
          let dirtyBytes = bytesRead - nat index in
          (take (nat index) buffer, copy_down 0 dirtyBytes (nat index) buffer, dirtyBytes, [])
        else if index = 0 then
          let index = bytes_Index readBuf [CHR 0x0A] in
          if index < 0 then (readBuf, buffer, 0, [Warning_invalid_or_too_long])
          else
            let toInjectBuf = take (nat index) readBuf in
            case injectPlatform other toInjectBuf platform of
              Inr injectedBuf \<Rightarrow>
                (let dirtyBytes = bytesRead - nat index in
                 (injectedBuf, copy_down 0 dirtyBytes (nat index) buffer, dirtyBytes,
                  [Info_injected]))
            | Inl err \<Rightarrow> (readBuf, buffer, 0, [Warning_unable_to_inject toInjectBuf err])
        else (readBuf, buffer, 0, [])
      else (readBuf, buffer, 0, []))"

text \<open>
  The state of the loop. \<open>status\<close> tells whether the loop is still polling, has been
  left (then lines 227 to 238 have run), or was given a \<open>Read\<close> event with more bytes
  than \<open>buffer[dirtyBytes:]\<close> can hold, which no \<open>Read\<close> returns.
\<close>

datatype status = Polling | Left | ReadTooLong

record relay =
  buffer :: string
  dirtyBytes :: nat
  dockerConn :: conn
  logs :: "log_entry list"
  readErr :: "read_error option"
  writeErr :: "write_error option"
  status :: status

text \<open>Lines 227 to 238: the error logs and \<open>dockerConn.Close()\<close>.\<close>

definition leave :: "relay \<Rightarrow> relay" where
  "leave r =
     (let l1 = (case readErr r of
                  None \<Rightarrow> []
                | Some e \<Rightarrow> if e \<noteq> EOF then [Error_read_client e] else []);
          l2 = (case writeErr r of None \<Rightarrow> [] | Some e \<Rightarrow> [Error_write_docker e]);
          cl = conn_Close (dockerConn r)
      in r\<lparr>dockerConn := snd cl,
            logs := logs r @ l1 @ l2 @ [if fst cl then Error_close_docker
                                      else Info_closed_client_docker],
            status := Left\<rparr>)"

fun relay_loop :: "url_parser \<Rightarrow> string \<Rightarrow> relay \<Rightarrow> event list \<Rightarrow> relay option" where
  "relay_loop other platform r [] = Some r"
| "relay_loop other platform r (DeadlineError # evs) =
     Some (leave (r\<lparr>logs := logs r @ [Error_set_timeout]\<rparr>))"
| "relay_loop other platform r (Read data rerr # evs) =
     (if length (buffer r) - dirtyBytes r < length data then Some (r\<lparr>status := ReadTooLong\<rparr>)
      else
        let buf = take (dirtyBytes r) (buffer r) @ data
                  @ drop (dirtyBytes r + length data) (buffer r);
            bytesRead = length data + dirtyBytes r
        in
        if rerr = Some Timeout \<and> bytesRead = 0
        then relay_loop other platform (r\<lparr>buffer := buf, dirtyBytes := 0, readErr := rerr\<rparr>) evs
        else
          let rerr' = (if rerr = Some Timeout then None else rerr) in
          case scan other platform buf bytesRead of
            (readBuf, buf', dirty', logged) \<Rightarrow>
              (case sendAll readBuf (dockerConn r) of
                 None \<Rightarrow> None
               | Some (werr, c') \<Rightarrow>
                   let r' = r\<lparr>buffer := buf', dirtyBytes := dirty', dockerConn := c',
                              logs := logs r @ logged, readErr := rerr', writeErr := werr\<rparr>
                   in if failed rerr' \<or> failed werr then Some (leave r')
                      else relay_loop other platform r' evs))"

text \<open>
  \<open>handleConnection\<close> itself: the dial, the start of \<open>forwardAll\<close> in its own
  goroutine, the loop. The session records what the function did to the accepted
  connection \<open>conn\<close>.
\<close>

datatype dial = DialFails | Dialed conn

record session =
  clientConn :: conn
  forwarding :: bool
  upstream :: "relay option"
  session_log :: "log_entry list"

definition new_relay :: "conn \<Rightarrow> relay" where
  "new_relay c = \<lparr>buffer = replicate bufSize (CHR 0x00), dirtyBytes = 0, dockerConn = c,
                  logs = [], readErr = None, writeErr = None, status = Polling\<rparr>"

definition handleConnection :: "url_parser \<Rightarrow> conn \<Rightarrow> dial \<Rightarrow> string \<Rightarrow> event list
    \<Rightarrow> session option" where
  "handleConnection other conn dialled platform evs =
     (case dialled of
        DialFails \<Rightarrow>
          Some \<lparr>clientConn = conn, forwarding = False, upstream = None,
                session_log = [Error_dial]\<rparr>
      | Dialed dc \<Rightarrow>
          (case relay_loop other platform (new_relay dc) evs of
             None \<Rightarrow> None
           | Some r \<Rightarrow>
               Some \<lparr>clientConn = conn, forwarding = True, upstream = Some r,
                     session_log = logs r\<rparr>))"


section \<open>\<open>forwardAll\<close> (main.go, lines 37 to 93)\<close>

text \<open>The write loop of lines 68 to 74; it too writes the whole \<open>readBuf\<close> on every pass.\<close>

partial_function (option) forwardAll_write ::
    "int \<Rightarrow> string \<Rightarrow> conn \<Rightarrow> (write_error option \<times> conn) option" where
  "forwardAll_write toWrite readBuf dst =
     (if toWrite > 0 then
        (case conn_Write dst readBuf of
           (bytesWritten, werr, c') \<Rightarrow>
             if failed werr then Some (werr, c')
             else forwardAll_write (toWrite - int bytesWritten) readBuf c')
      else Some (None, dst))"

declare forwardAll_write.simps [code]

record forward =
  dstConn :: conn
  flog :: "log_entry list"
  freadErr :: "read_error option"
  fwriteErr :: "write_error option"
  fstatus :: status

text \<open>Lines 80 to 92.\<close>

definition fleave :: "forward \<Rightarrow> forward" where
  "fleave f =
     (let l1 = (case freadErr f of
                  None \<Rightarrow> []
                | Some e \<Rightarrow> if e \<noteq> EOF \<and> e \<noteq> ClosedConnection
                             then [Error_read_docker e] else []);
          l2 = (case fwriteErr f of None \<Rightarrow> [] | Some e \<Rightarrow> [Error_write_client e]);
          cl = conn_Close (dstConn f)
      in f\<lparr>dstConn := snd cl,
            flog := flog f @ l1 @ l2 @ [if fst cl then Error_close_client
                                        else Info_closed_docker_client],
            fstatus := Left\<rparr>)"

fun forwardAll :: "forward \<Rightarrow> event list \<Rightarrow> forward option" where
  "forwardAll f [] = Some f"
| "forwardAll f (DeadlineError # evs) = Some (fleave (f\<lparr>flog := flog f @ [Error_set_timeout]\<rparr>))"
| "forwardAll f (Read data rerr # evs) =
     (if bufSize < length data then Some (f\<lparr>fstatus := ReadTooLong\<rparr>)
      else if rerr = Some Timeout \<and> length data = 0
      then forwardAll (f\<lparr>freadErr := rerr\<rparr>) evs
      else
        let rerr' = (if rerr = Some Timeout then None else rerr) in
        case forwardAll_write (int (length data)) data (dstConn f) of
          None \<Rightarrow> None
        | Some (werr, c') \<Rightarrow>
            let f' = f\<lparr>dstConn := c', freadErr := rerr',
                       fwriteErr := (if data = [] then fwriteErr f else werr)\<rparr>
            in if failed (fwriteErr f') \<or> failed rerr' then Some (fleave f')
               else forwardAll f' evs)"

definition new_forward :: "conn \<Rightarrow> forward" where
  "new_forward c = \<lparr>dstConn = c, flog = [], freadErr = None, fwriteErr = None,
                    fstatus = Polling\<rparr>"


section \<open>Notions used to state the properties\<close>

text \<open>
  The window of a pass is \<open>buffer[:bytesRead]\<close>: the bytes kept from the pass before,
  then the bytes just read.
\<close>

definition window :: "relay \<Rightarrow> string \<Rightarrow> string" where
  "window r data = take (dirtyBytes r) (buffer r) @ data"

definition leftover :: "relay \<Rightarrow> string" where
  "leftover r = take (dirtyBytes r) (buffer r)"

text \<open>
  What \<open>scan\<close> does, told on the window alone: the bytes to send, the bytes kept for
  the next pass, the log.
\<close>

definition scan_window :: "url_parser \<Rightarrow> string \<Rightarrow> string
    \<Rightarrow> string \<times> string \<times> log_entry list" where
  "scan_window other platform w =
     (if bytes_Contains w ''POST'' \<and> bytes_Contains w ''/images/create'' then
        let index = bytes_Index w ''POST'' in
        if index > 0 then (take (nat index) w, drop (nat index) w, [])
        else if index = 0 then
          let index = bytes_Index w [CHR 0x0A] in
          if index < 0 then (w, [], [Warning_invalid_or_too_long])
          else
            (case injectPlatform other (take (nat index) w) platform of
               Inr injectedBuf \<Rightarrow> (injectedBuf, drop (nat index) w, [Info_injected])
             | Inl err \<Rightarrow> (w, [], [Warning_unable_to_inject (take (nat index) w) err]))
        else (w, [], [])
      else (w, [], []))"

text \<open>
  The events the loop gets to: it stops after a failing \<open>SetReadDeadline\<close> and after a
  \<open>Read\<close> that returns an error other than a timeout.
\<close>

fun performed :: "event list \<Rightarrow> event list" where
  "performed [] = []"
| "performed (DeadlineError # evs) = []"
| "performed (Read data rerr # evs) =
     Read data rerr # (if rerr = None \<or> rerr = Some Timeout then performed evs else [])"

fun bytes_of :: "event \<Rightarrow> string" where
  "bytes_of (Read data rerr) = data"
| "bytes_of DeadlineError = []"

text \<open>
  An event is plain when its bytes fit the buffer and do not hold both the method token
  and the path marker.
\<close>

definition plain :: "event \<Rightarrow> bool" where
  "plain ev = (length (bytes_of ev) \<le> bufSize
      \<and> \<not> (bytes_Contains (bytes_of ev) ''POST''
             \<and> bytes_Contains (bytes_of ev) ''/images/create''))"


text \<open>
  A stand-in for the library on targets that are not in origin form, for the examples:
  it rejects them all. No example below gives it a target.
\<close>

definition origin_only :: url_parser where
  "origin_only rawurl = Inl (OtherParseError rawurl)"

definition fresh_conn :: conn where
  "fresh_conn = \<lparr>written = [], script = [], closed = False\<rparr>"

text \<open>
  The same loop told on windows: the state is what is kept for the next pass instead of
  the buffer, and \<open>cap\<close> is the length of the buffer. \<open>relay_loop\<close> is shown below to
  refine it (\<open>relay_refines\<close>).
\<close>

type_synonym view = "string \<times> conn \<times> log_entry list \<times> read_error option
    \<times> write_error option \<times> status"

definition view :: "relay \<Rightarrow> view" where
  "view r = (leftover r, dockerConn r, logs r, readErr r, writeErr r, status r)"

fun leave_view :: "view \<Rightarrow> view" where
  "leave_view (kept, c, lg, re, we, st) =
     (let l1 = (case re of
                  None \<Rightarrow> []
                | Some e \<Rightarrow> if e \<noteq> EOF then [Error_read_client e] else []);
          l2 = (case we of None \<Rightarrow> [] | Some e \<Rightarrow> [Error_write_docker e]);
          cl = conn_Close c
      in (kept, snd cl,
          lg @ l1 @ l2 @ [if fst cl then Error_close_docker else Info_closed_client_docker],
          re, we, Left))"

fun relay_windows :: "url_parser \<Rightarrow> string \<Rightarrow> nat \<Rightarrow> view \<Rightarrow> event list \<Rightarrow> view option" where
  "relay_windows other platform cap v [] = Some v"
| "relay_windows other platform cap (kept, c, lg, re, we, st) (DeadlineError # evs) =
     Some (leave_view (kept, c, lg @ [Error_set_timeout], re, we, st))"
| "relay_windows other platform cap (kept, c, lg, re, we, st) (Read data rerr # evs) =
     (if cap - length kept < length data then Some (kept, c, lg, re, we, ReadTooLong)
      else
        let w = kept @ data in
        if rerr = Some Timeout \<and> w = []
        then relay_windows other platform cap ([], c, lg, rerr, we, st) evs
        else
          let rerr' = (if rerr = Some Timeout then None else rerr) in
          case scan_window other platform w of
            (readBuf, left, logged) \<Rightarrow>
              (case sendAll readBuf c of
                 None \<Rightarrow> None
               | Some (werr, c') \<Rightarrow>
                   let v' = (left, c', lg @ logged, rerr', werr, st)
                   in if failed rerr' \<or> failed werr then Some (leave_view v')
                      else relay_windows other platform cap v' evs))"



section \<open>Facts about \<open>bytes.Index\<close>\<close>

lemma bytes_Index_ge: "- 1 \<le> bytes_Index s sep"
  by (induction s) (auto simp: Let_def)

lemma bytes_Index_neg: "bytes_Index s sep < 0 \<longleftrightarrow> bytes_Index s sep = - 1"
  using bytes_Index_ge [of s sep] by auto

lemma bytes_Index_found:
  "bytes_Index s sep = int i \<Longrightarrow> prefix sep (drop i s) \<and> i + length sep \<le> length s"
proof (induction s arbitrary: i)
  case Nil
  then show ?case by (auto split: if_splits)
next
  case (Cons c s)
  show ?case
  proof (cases "prefix sep (c # s)")
    case True
    with Cons.prems show ?thesis by (auto dest: prefix_length_le)
  next
    case False
    with Cons.prems have *: "bytes_Index s sep \<ge> 0" "bytes_Index s sep = int i - 1"
      by (auto simp: Let_def split: if_splits)
    then obtain k where k: "i = Suc k" by (cases i) auto
    with * Cons.IH [of k] show ?thesis by auto
  qed
qed

lemma bytes_Index_first:
  "bytes_Index s sep = int i \<Longrightarrow> j < i \<Longrightarrow> \<not> prefix sep (drop j s)"
proof (induction s arbitrary: i j)
  case Nil
  then show ?case by (auto split: if_splits)
next
  case (Cons c s)
  show ?case
  proof (cases "prefix sep (c # s)")
    case True
    with Cons.prems show ?thesis by auto
  next
    case False
    with Cons.prems have *: "bytes_Index s sep = int i - 1" "bytes_Index s sep \<ge> 0"
      by (auto simp: Let_def split: if_splits)
    then obtain k where k: "i = Suc k" by (cases i) auto
    show ?thesis
    proof (cases j)
      case 0
      with False show ?thesis by simp
    next
      case (Suc j')
      with Cons.IH [of k j'] * k Cons.prems show ?thesis by auto
    qed
  qed
qed

lemma bytes_Index_absent:
  "bytes_Index s sep = - 1 \<Longrightarrow> j \<le> length s \<Longrightarrow> \<not> prefix sep (drop j s)"
proof (induction s arbitrary: j)
  case Nil
  then show ?case by (auto split: if_splits)
next
  case (Cons c s)
  from Cons.prems have np: "\<not> prefix sep (c # s)" and *: "bytes_Index s sep = - 1"
    using bytes_Index_ge [of s sep] by (auto simp: Let_def split: if_splits)
  show ?case
  proof (cases j)
    case 0
    with np show ?thesis by simp
  next
    case (Suc j')
    with Cons.IH [of j'] * Cons.prems show ?thesis by auto
  qed
qed

lemma bytes_Index_cases:
  obtains (absent) "bytes_Index s sep = - 1" | (found) i where "bytes_Index s sep = int i"
proof (cases "bytes_Index s sep < 0")
  case True
  then show ?thesis using absent bytes_Index_neg by blast
next
  case False
  then have "bytes_Index s sep = int (nat (bytes_Index s sep))" by simp
  then show ?thesis using found by blast
qed

lemma bytes_Index_eqI:
  assumes "prefix sep (drop i s)" "i \<le> length s" "\<And>j. j < i \<Longrightarrow> \<not> prefix sep (drop j s)"
  shows "bytes_Index s sep = int i"
proof (cases s sep rule: bytes_Index_cases)
  case absent
  from bytes_Index_absent [OF absent assms(2)] assms(1) show ?thesis by simp
next
  case (found k)
  have "\<not> k < i" using bytes_Index_found [OF found] assms(3) by auto
  moreover have "\<not> i < k" using bytes_Index_first [OF found] assms(1) by auto
  ultimately show ?thesis using found by simp
qed

lemma bytes_Index_append:
  assumes "0 \<le> bytes_Index s sep"
  shows "bytes_Index (s @ t) sep = bytes_Index s sep"
proof -
  from assms obtain i where i: "bytes_Index s sep = int i"
    by (cases s sep rule: bytes_Index_cases) auto
  from bytes_Index_found [OF i] have p: "prefix sep (drop i s)" and le: "i + length sep \<le> length s"
    by auto
  have "bytes_Index (s @ t) sep = int i"
  proof (rule bytes_Index_eqI)
    show "prefix sep (drop i (s @ t))" using p le by (auto simp: prefix_def)
    show "i \<le> length (s @ t)" using le by simp
    fix j assume j: "j < i"
    have np: "\<not> prefix sep (drop j s)" by (rule bytes_Index_first [OF i j])
    have len: "length sep \<le> length (drop j s)" using le j by simp
    show "\<not> prefix sep (drop j (s @ t))"
    proof
      assume "prefix sep (drop j (s @ t))"
      then have "prefix sep (drop j s @ t)" using j le by simp
      then have "prefix sep (drop j s)" using len
        by (auto simp: prefix_append dest: prefix_length_le)
      with np show False ..
    qed
  qed
  with i show ?thesis by simp
qed


section \<open>The copy loop and \<open>sendAll\<close> on a connection that accepts every write\<close>

lemma copy_down_eq:
  "i \<le> d \<Longrightarrow> idx + d \<le> length buf \<Longrightarrow>
   copy_down i d idx buf = take i buf @ take (d - i) (drop (idx + i) buf) @ drop d buf"
proof (induction i d idx buf rule: copy_down.induct)
  case (1 i d idx buf)
  show ?case
  proof (cases "i < d")
    case False
    with "1.prems" have "i = d" by simp
    then show ?thesis by (subst copy_down.simps) simp
  next
    case True
    let ?b = "buf[i := buf ! (idx + i)]"
    have il: "i < length buf" and sl: "idx + i < length buf" using True "1.prems" by auto
    have ih: "copy_down (i + 1) d idx ?b
        = take (i + 1) ?b @ take (d - (i + 1)) (drop (idx + (i + 1)) ?b) @ drop d ?b"
      using "1.IH" [OF True] True "1.prems" by simp
    have t1: "take (i + 1) ?b = take i buf @ [buf ! (idx + i)]"
      using il by (simp add: take_Suc_conv_app_nth)
    have t2: "drop (idx + (i + 1)) ?b = drop (idx + (i + 1)) buf" by simp
    have t3: "drop d ?b = drop d buf" using True by simp
    have t4: "take (d - i) (drop (idx + i) buf)
        = buf ! (idx + i) # take (d - (i + 1)) (drop (idx + (i + 1)) buf)"
    proof -
      have "drop (idx + i) buf = buf ! (idx + i) # drop (Suc (idx + i)) buf"
        using sl by (simp add: Cons_nth_drop_Suc)
      moreover have "d - i = Suc (d - (i + 1))" using True by simp
      ultimately show ?thesis by simp
    qed
    have "copy_down i d idx buf = copy_down (i + 1) d idx ?b"
      using True by (subst copy_down.simps) simp
    with ih t1 t2 t3 t4 show ?thesis by simp
  qed
qed

lemma copy_down_0:
  "idx + d \<le> length buf \<Longrightarrow> copy_down 0 d idx buf = take d (drop idx buf) @ drop d buf"
  using copy_down_eq [of 0 d idx buf] by simp

lemma sendAll_loop_done: "toWrite \<le> 0 \<Longrightarrow> sendAll_loop toWrite b c = Some (None, c)"
  by (subst sendAll_loop.simps) simp

lemma sendAll_reliable:
  assumes "script c = []" "\<not> closed c"
  shows "sendAll b c = Some (None, c\<lparr>written := written c @ b\<rparr>)"
proof (cases "b = []")
  case True
  then show ?thesis by (simp add: sendAll_def sendAll_loop_done)
next
  case False
  then have "sendAll b c = sendAll_loop 0 b (c\<lparr>written := written c @ b\<rparr>)"
    using assms by (simp add: sendAll_def failed_def conn_Write_def sendAll_loop.simps [of "int (length b)"])
  then show ?thesis by (simp add: sendAll_loop_done)
qed



section \<open>The loop of \<open>handleConnection\<close> refines its description on windows\<close>

lemma bytes_Contains_iff: "bytes_Contains s sep \<longleftrightarrow> 0 \<le> bytes_Index s sep"
  using bytes_Index_ge [of s sep] by (auto simp: bytes_Contains_def)

lemma bytes_Index_take:
  assumes "bytes_Contains (take n buf) sep"
  shows "bytes_Index buf sep = bytes_Index (take n buf) sep"
proof -
  have "bytes_Index (take n buf @ drop n buf) sep = bytes_Index (take n buf) sep"
    using assms by (intro bytes_Index_append) (simp add: bytes_Contains_iff)
  then show ?thesis by simp
qed

lemma bytes_Index_le_length: "bytes_Index s sep \<le> int (length s)"
  by (cases s sep rule: bytes_Index_cases) (auto dest: bytes_Index_found)

lemma bytes_Index_nonempty_lt:
  "sep \<noteq> [] \<Longrightarrow> bytes_Index s sep < int (length s)"
proof (cases s sep rule: bytes_Index_cases)
  case absent
  then show ?thesis by simp
next
  case (found i)
  assume "sep \<noteq> []"
  then have "0 < length sep" by simp
  moreover have "i + length sep \<le> length s" using bytes_Index_found [OF found] by simp
  ultimately have "i < length s" by linarith
  with found show ?thesis by simp
qed

lemma scan_refines:
  assumes le: "bytesRead \<le> length buf"
    and sw: "scan_window other platform (take bytesRead buf) = (fwd, left, lg)"
  shows "\<exists>buf'. scan other platform buf bytesRead = (fwd, buf', length left, lg)
           \<and> length buf' = length buf \<and> take (length left) buf' = left"
proof -
  let ?w = "take bytesRead buf"
  have lw: "length ?w = bytesRead" using le by simp
  show ?thesis
  proof (cases "bytes_Contains ?w ''POST'' \<and> bytes_Contains ?w ''/images/create''")
    case False
    with sw show ?thesis by (auto simp: scan_def scan_window_def)
  next
    case True
    then have ip: "bytes_Index buf ''POST'' = bytes_Index ?w ''POST''"
      by (simp add: bytes_Index_take)
    from True have ge: "0 \<le> bytes_Index ?w ''POST''" by (simp add: bytes_Contains_iff)
    show ?thesis
    proof (cases "bytes_Index ?w ''POST'' > 0")
      case pos: True
      define i where "i = nat (bytes_Index ?w ''POST'')"
      have ii: "bytes_Index ?w ''POST'' = int i" using pos by (simp add: i_def)
      have ilt: "i \<le> bytesRead" using bytes_Index_found [OF ii] lw by simp
      from sw True pos have f: "fwd = take i ?w" "left = drop i ?w" "lg = []"
        by (auto simp: scan_window_def Let_def i_def)
      have ll: "length left = bytesRead - i" using f lw by simp
      let ?b = "copy_down 0 (bytesRead - i) i buf"
      have cd: "?b = take (bytesRead - i) (drop i buf) @ drop (bytesRead - i) buf"
        using ilt le by (intro copy_down_0) simp
      have "scan other platform buf bytesRead = (fwd, ?b, length left, lg)"
        using True pos ip f ll ilt by (simp add: scan_def Let_def i_def min_absorb2)
      moreover have "length ?b = length buf" using cd ilt le by simp
      moreover have "take (length left) ?b = left"
        using cd ll f ilt le by (simp add: drop_take)
      ultimately show ?thesis by blast
    next
      case npos: False
      with ge have z: "bytes_Index ?w ''POST'' = 0" by simp
      show ?thesis
      proof (cases "bytes_Index ?w [CHR 0x0A] < 0")
        case True
        with sw \<open>bytes_Contains ?w ''POST'' \<and> bytes_Contains ?w ''/images/create''\<close> z ip
        show ?thesis by (auto simp: scan_def scan_window_def Let_def)
      next
        case nl: False
        define j where "j = nat (bytes_Index ?w [CHR 0x0A])"
        have jj: "bytes_Index ?w [CHR 0x0A] = int j" using nl by (simp add: j_def)
        have jlt: "j < bytesRead" using bytes_Index_found [OF jj] lw by simp
        show ?thesis
        proof (cases "injectPlatform other (take j ?w) platform")
          case (Inl e)
          with sw True z ip nl show ?thesis
            by (auto simp: scan_def scan_window_def Let_def j_def)
        next
          case (Inr inj)
          with sw True z nl have f: "fwd = inj" "left = drop j ?w" "lg = [Info_injected]"
            by (auto simp: scan_window_def Let_def j_def)
          have ll: "length left = bytesRead - j" using f lw by simp
          let ?b = "copy_down 0 (bytesRead - j) j buf"
          have cd: "?b = take (bytesRead - j) (drop j buf) @ drop (bytesRead - j) buf"
            using jlt le by (intro copy_down_0) simp
          have "scan other platform buf bytesRead = (fwd, ?b, length left, lg)"
            using True z ip nl Inr f ll by (simp add: scan_def Let_def j_def)
          moreover have "length ?b = length buf" using cd jlt le by simp
          moreover have "take (length left) ?b = left"
            using cd ll f jlt le by (simp add: drop_take)
          ultimately show ?thesis by blast
        qed
      qed
    qed
  qed
qed


lemma view_leave: "view (leave r) = leave_view (view r)"
  by (simp add: view_def leave_def leftover_def Let_def)

lemma relay_refines:
  "dirtyBytes r \<le> length (buffer r) \<Longrightarrow>
   map_option view (relay_loop other platform r evs)
     = relay_windows other platform (length (buffer r)) (view r) evs"
proof (induction evs arbitrary: r)
  case Nil
  then show ?case by simp
next
  case (Cons ev evs)
  have vr: "view r = (leftover r, dockerConn r, logs r, readErr r, writeErr r, status r)"
    by (simp add: view_def)
  show ?case
  proof (cases ev)
    case DeadlineError
    have "view (r\<lparr>logs := logs r @ [Error_set_timeout]\<rparr>)
        = (leftover r, dockerConn r, logs r @ [Error_set_timeout], readErr r, writeErr r, status r)"
      by (simp add: view_def leftover_def)
    then show ?thesis
      using view_leave [of "r\<lparr>logs := logs r @ [Error_set_timeout]\<rparr>"] DeadlineError
      by (simp add: vr)
  next
    case (Read data rerr)
    let ?cap = "length (buffer r)"
    have lk: "length (leftover r) = dirtyBytes r" using Cons.prems by (simp add: leftover_def)
    show ?thesis
    proof (cases "?cap - dirtyBytes r < length data")
      case True
      have "view (r\<lparr>status := ReadTooLong\<rparr>)
          = (leftover r, dockerConn r, logs r, readErr r, writeErr r, ReadTooLong)"
        by (simp add: view_def leftover_def)
      then show ?thesis using Read lk True by (simp add: vr)
    next
      case fits: False
      let ?buf = "take (dirtyBytes r) (buffer r) @ data @ drop (dirtyBytes r + length data) (buffer r)"
      let ?n = "length data + dirtyBytes r"
      have lb: "length ?buf = ?cap" using fits Cons.prems by simp
      have nle: "?n \<le> length ?buf" using fits Cons.prems by simp
      have tw: "take ?n ?buf = leftover r @ data" using Cons.prems by (simp add: leftover_def)
      show ?thesis
      proof (cases "rerr = Some Timeout \<and> ?n = 0")
        case True
        let ?r = "r\<lparr>buffer := ?buf, dirtyBytes := 0, readErr := rerr\<rparr>"
        have ih: "map_option view (relay_loop other platform ?r evs)
            = relay_windows other platform (length (buffer ?r)) (view ?r) evs"
          by (rule Cons.IH) simp
        have v: "view ?r = ([], dockerConn r, logs r, rerr, writeErr r, status r)"
          by (simp add: view_def leftover_def)
        have lhs: "relay_loop other platform r (ev # evs) = relay_loop other platform ?r evs"
          using True Read fits by (simp add: Let_def)
        have rhs: "relay_windows other platform ?cap (view r) (ev # evs)
            = relay_windows other platform ?cap ([], dockerConn r, logs r, rerr, writeErr r, status r) evs"
          using True Read fits lk by (simp add: vr Let_def)
        show ?thesis using ih v lb by (simp only: lhs rhs relay.simps) simp
      next
        case False
        then have nskip: "\<not> (rerr = Some Timeout \<and> leftover r @ data = [])"
          using lk by auto
        define rerr' where "rerr' = (if rerr = Some Timeout then None else rerr)"
        obtain fwd left lg where sw: "scan_window other platform (leftover r @ data) = (fwd, left, lg)"
          by (cases "scan_window other platform (leftover r @ data)") auto
        from scan_refines [OF nle, of other platform fwd left lg] sw tw
        obtain buf' where sc: "scan other platform ?buf ?n = (fwd, buf', length left, lg)"
          and lb': "length buf' = length ?buf" and tl: "take (length left) buf' = left"
          by auto
        show ?thesis
        proof (cases "sendAll fwd (dockerConn r)")
          case None
          have "relay_loop other platform r (ev # evs) = None"
            using Read fits False sc None by (auto simp: Let_def)
          moreover have "relay_windows other platform ?cap (view r) (ev # evs) = None"
            using Read fits nskip sw lk None by (auto simp: vr Let_def)
          ultimately show ?thesis by simp
        next
          case (Some p)
          obtain werr c' where p: "p = (werr, c')" by (cases p)
          let ?r' = "r\<lparr>buffer := buf', dirtyBytes := length left, dockerConn := c',
                       logs := logs r @ lg, readErr := rerr', writeErr := werr\<rparr>"
          have vr': "view ?r' = (left, c', logs r @ lg, rerr', werr, status r)"
            using tl by (simp add: view_def leftover_def)
          have "length (take (length left) buf') \<le> length buf'" by simp
          then have "length left \<le> length buf'" by (simp only: tl)
          then have dl: "dirtyBytes ?r' \<le> length (buffer ?r')" by simp
          have lhs: "relay_loop other platform r (ev # evs)
              = (if failed rerr' \<or> failed werr then Some (leave ?r')
                 else relay_loop other platform ?r' evs)"
            using Read fits False sc Some p by (auto simp: Let_def rerr'_def)
          have rhs: "relay_windows other platform ?cap (view r) (ev # evs)
              = (if failed rerr' \<or> failed werr
                 then Some (leave_view (left, c', logs r @ lg, rerr', werr, status r))
                 else relay_windows other platform ?cap (left, c', logs r @ lg, rerr', werr, status r) evs)"
            using Read fits nskip sw lk Some p by (auto simp: vr Let_def rerr'_def)
          have ih: "map_option view (relay_loop other platform ?r' evs)
                = relay_windows other platform (length (buffer ?r')) (view ?r') evs"
            by (rule Cons.IH [OF dl])
          have lbb: "length (buffer ?r') = ?cap" using lb' lb by simp
          show ?thesis
            unfolding lhs rhs using ih view_leave [of ?r'] by (simp only: vr' lbb split: if_splits) simp
        qed
      qed
    qed
  qed
qed

lemma view_new_relay: "view (new_relay c) = ([], c, [], None, None, Polling)"
  by (simp add: view_def new_relay_def leftover_def)

lemma relay_refines_new:
  "map_option view (relay_loop other platform (new_relay c) evs)
     = relay_windows other platform 4096 ([], c, [], None, None, Polling) evs"
  using relay_refines [of "new_relay c" other platform evs]
  by (simp add: view_new_relay) (simp add: new_relay_def bufSize_def)

lemma scan_no_terminator:
  assumes "bytesRead \<le> length buf"
    and "bytes_Index (take bytesRead buf) ''POST'' = 0"
    and "bytes_Contains (take bytesRead buf) ''/images/create''"
    and "bytes_Index (take bytesRead buf) [CHR 0x0A] < 0"
  shows "scan other platform buf bytesRead
     = (take bytesRead buf, buf, 0, [Warning_invalid_or_too_long])"
proof -
  have c: "bytes_Contains (take bytesRead buf) ''POST''"
    using assms(2) by (simp add: bytes_Contains_iff)
  then have "bytes_Index buf ''POST'' = 0" using assms(2) by (simp add: bytes_Index_take)
  with c assms show ?thesis by (simp add: scan_def Let_def)
qed

lemma bytes_Index_char_absent: "c \<notin> set s \<Longrightarrow> bytes_Index s [c] = - 1"
  by (induction s) auto

lemma bytes_Index_char_first:
  "c \<notin> set s \<Longrightarrow> bytes_Index (s @ c # t) [c] = int (length s)"
  by (induction s) (auto simp: Let_def)

lemma bytes_Index_char_split:
  assumes "c \<in> set s"
  obtains s1 s2 where "s = s1 @ c # s2" "c \<notin> set s1" "bytes_Index s [c] = int (length s1)"
proof -
  from split_list_first [OF assms] obtain s1 s2 where "s = s1 @ c # s2" "c \<notin> set s1" by blast
  then show ?thesis using that bytes_Index_char_first by blast
qed

lemma length_genSplit_char:
  "length (genSplit s [c] k) = min k (strings_Count s c) + 1"
proof (induction k arbitrary: s)
  case 0
  then show ?case by simp
next
  case (Suc k)
  show ?case
  proof (cases "c \<in> set s")
    case False
    then have "strings_Count s c = 0" by (auto simp: filter_empty_conv)
    with False show ?thesis by (simp add: bytes_Index_char_absent)
  next
    case True
    then obtain s1 s2 where s: "s = s1 @ c # s2" "c \<notin> set s1"
      and i: "bytes_Index s [c] = int (length s1)"
      by (rule bytes_Index_char_split)
    have "filter (\<lambda>b. b = c) s1 = []" using s(2) by (auto simp: filter_empty_conv)
    then have cnt: "strings_Count s c = Suc (strings_Count s2 c)" using s by simp
    have "genSplit s [c] (Suc k) = s1 # genSplit s2 [c] k"
      using i s by (simp add: Let_def)
    with Suc.IH [of s2] cnt show ?thesis by simp
  qed
qed

lemma injectPlatform_invalid_iff:
  "(injectPlatform other line platform = Inl InvalidHTTPRequest)
     = (strings_Count line CHR '' '' < 2)"
proof -
  have l: "length (bytes_SplitN line '' '' 3) = min 2 (strings_Count line CHR '' '') + 1"
    using length_genSplit_char [of line "CHR '' ''" 2] by (simp add: bytes_SplitN_def)
  show ?thesis
  proof (cases "strings_Count line CHR '' '' < 2")
    case True
    with l show ?thesis by (simp add: injectPlatform_def Let_def del: strings_Count.simps)
  next
    case False
    with l have "\<not> length (bytes_SplitN line '' '' 3) < 3" by (simp del: strings_Count.simps)
    with False show ?thesis
      by (auto simp: injectPlatform_def Let_def simp del: strings_Count.simps
               split: sum.splits prod.splits option.splits)
  qed
qed

lemma scan_inject_error:
  assumes "bytes_Index (take bytesRead buf) ''POST'' = 0"
    and "bytes_Contains (take bytesRead buf) ''/images/create''"
    and "bytes_Index (take bytesRead buf) [CHR 0x0A] = int j"
    and "injectPlatform other (take j (take bytesRead buf)) platform = Inl err"
  shows "scan other platform buf bytesRead
     = (take bytesRead buf, buf, 0,
        [Warning_unable_to_inject (take j (take bytesRead buf)) err])"
proof -
  have c: "bytes_Contains (take bytesRead buf) ''POST''"
    using assms(1) by (simp add: bytes_Contains_iff)
  then have "bytes_Index buf ''POST'' = 0" using assms(1) by (simp add: bytes_Index_take)
  with c assms show ?thesis by (simp add: scan_def Let_def)
qed

lemma window_length:
  "dirtyBytes r \<le> length (buffer r) \<Longrightarrow> length (window r data) = dirtyBytes r + length data"
  by (simp add: window_def)

lemma window_new_relay: "window (new_relay c) data = data"
  by (simp add: window_def new_relay_def)

lemma scan_window_partition:
  "scan_window other platform w = (fwd, left, lg) \<Longrightarrow> Info_injected \<notin> set lg
   \<Longrightarrow> fwd @ left = w"
  by (auto simp: scan_window_def Let_def split: if_splits sum.splits)

lemma scan_window_injected:
  "scan_window other platform w = (fwd, left, lg) \<Longrightarrow> Info_injected \<in> set lg
   \<Longrightarrow> bytes_Index w ''POST'' = 0 \<and> 0 \<le> bytes_Index w [CHR 0x0A]
        \<and> injectPlatform other (take (nat (bytes_Index w [CHR 0x0A])) w) platform = Inr fwd
        \<and> left = drop (nat (bytes_Index w [CHR 0x0A])) w"
  by (auto simp: scan_window_def Let_def split: if_splits sum.splits)





lemma scan_window_plain:
  "\<not> (bytes_Contains w ''POST'' \<and> bytes_Contains w ''/images/create'')
   \<Longrightarrow> scan_window other platform w = (w, [], [])"
  by (auto simp: scan_window_def)

lemma written_leave_view:
  "written (fst (snd (leave_view (kept, c, lg, re, we, st)))) = written c"
  by (simp add: conn_Close_def Let_def)

lemma relay_windows_plain:
  assumes "script c = []" "\<not> closed c" "list_all plain evs"
  shows "map_option (\<lambda>v. written (fst (snd v)))
           (relay_windows other platform bufSize ([], c, lg, re, we, st) evs)
         = Some (written c @ concat (map bytes_of (performed evs)))"
  using assms
proof (induction evs arbitrary: c lg re we st)
  case Nil
  then show ?case by simp
next
  case (Cons ev evs)
  show ?case
  proof (cases ev)
    case DeadlineError
    then show ?thesis
      by (simp add: written_leave_view del: leave_view.simps)
  next
    case (Read data rerr)
    from Cons.prems(3) have pe: "plain ev" and rest: "list_all plain evs" by simp_all
    from pe Read have len: "length data \<le> bufSize"
      and nb: "\<not> (bytes_Contains data ''POST'' \<and> bytes_Contains data ''/images/create'')"
      by (simp_all add: plain_def)
    show ?thesis
    proof (cases "rerr = Some Timeout \<and> data = []")
      case True
      from Cons.IH [OF Cons.prems(1,2) rest, of lg rerr we st] True Read len
      show ?thesis by simp
    next
      case False
      define rerr' where "rerr' = (if rerr = Some Timeout then None else rerr)"
      let ?c = "c\<lparr>written := written c @ data\<rparr>"
      have sa: "sendAll data c = Some (None, ?c)"
        using Cons.prems(1,2) by (rule sendAll_reliable)
      have sw: "scan_window other platform data = (data, [], [])"
        using nb by (rule scan_window_plain)
      have step: "relay_windows other platform bufSize ([], c, lg, re, we, st) (ev # evs)
          = (if failed rerr' then Some (leave_view ([], ?c, lg, rerr', None, st))
             else relay_windows other platform bufSize ([], ?c, lg, rerr', None, st) evs)"
        using False Read len sa sw by (auto simp: Let_def rerr'_def failed_def)
      show ?thesis
      proof (cases "failed rerr'")
        case True
        then have p: "performed (ev # evs) = [Read data rerr]"
          using Read by (auto simp: rerr'_def failed_def split: if_splits)
        show ?thesis unfolding step p using True
          by (simp add: written_leave_view del: leave_view.simps)
      next
        case nf: False
        then have p: "performed (ev # evs) = Read data rerr # performed evs"
          using Read by (auto simp: rerr'_def failed_def split: if_splits)
        have "script ?c = []" "\<not> closed ?c" using Cons.prems by simp_all
        from Cons.IH [OF this rest, of lg rerr' None st] nf
        show ?thesis unfolding step p by simp
      qed
    qed
  qed
qed









section \<open>The properties\<close>

text \<open>
  C5. The request line \<open>POST /v1.40/images/create?fromImage=x HTTP/1.1\<close>, CR, LF, with
  platform \<open>linux/arm64\<close>: \<open>injectPlatform\<close> is given the line up to the LF and returns
  it with \<open>&platform=linux%2Farm64\<close> after \<open>fromImage=x\<close>; the LF is kept for the
  next pass, and after one more poll the upstream connection has received exactly the
  rewritten line, CR, LF.
\<close>

theorem C5_rewrites_the_example_line:
  "injectPlatform other (''POST /v1.40/images/create?fromImage=x HTTP/1.1'' @ [CHR 0x0D])
       ''linux/arm64''
     = Inr (''POST /v1.40/images/create?fromImage=x&platform=linux%2Farm64 HTTP/1.1''
            @ [CHR 0x0D])
   \<and> map_option view
        (relay_loop other ''linux/arm64'' (new_relay fresh_conn)
          [Read (''POST /v1.40/images/create?fromImage=x HTTP/1.1'' @ [CHR 0x0D, CHR 0x0A]) None,
           Read [] (Some Timeout)])
     = Some ([], fresh_conn\<lparr>written :=
          ''POST /v1.40/images/create?fromImage=x&platform=linux%2Farm64 HTTP/1.1''
            @ [CHR 0x0D, CHR 0x0A]\<rparr>, [Info_injected], None, None, Polling)"
proof
  show "injectPlatform other (''POST /v1.40/images/create?fromImage=x HTTP/1.1'' @ [CHR 0x0D])
       ''linux/arm64''
     = Inr (''POST /v1.40/images/create?fromImage=x&platform=linux%2Farm64 HTTP/1.1''
            @ [CHR 0x0D])"
    by code_simp
  have "relay_windows other ''linux/arm64'' 4096 ([], fresh_conn, [], None, None, Polling)
          [Read (''POST /v1.40/images/create?fromImage=x HTTP/1.1'' @ [CHR 0x0D, CHR 0x0A]) None,
           Read [] (Some Timeout)]
     = Some ([], fresh_conn\<lparr>written :=
          ''POST /v1.40/images/create?fromImage=x&platform=linux%2Farm64 HTTP/1.1''
            @ [CHR 0x0D, CHR 0x0A]\<rparr>, [Info_injected], None, None, Polling)"
    by code_simp
  then show "map_option view
        (relay_loop other ''linux/arm64'' (new_relay fresh_conn)
          [Read (''POST /v1.40/images/create?fromImage=x HTTP/1.1'' @ [CHR 0x0D, CHR 0x0A]) None,
           Read [] (Some Timeout)])
     = Some ([], fresh_conn\<lparr>written :=
          ''POST /v1.40/images/create?fromImage=x&platform=linux%2Farm64 HTTP/1.1''
            @ [CHR 0x0D, CHR 0x0A]\<rparr>, [Info_injected], None, None, Polling)"
    by (simp only: relay_refines_new)
qed

text \<open>
  C8. When the dial fails the session should close the accepted connection. The function
  logs the error and returns: the accepted connection comes back as it was given, not
  closed, and \<open>forwardAll\<close>, the only code that closes it, is never started.
\<close>

theorem C8_dial_failure_leaves_client_open:
  "handleConnection other conn DialFails platform evs
     = Some \<lparr>clientConn = conn, forwarding = False, upstream = None,
             session_log = [Error_dial]\<rparr>"
  by (simp add: handleConnection_def)

text \<open>
  C4. A window that starts with \<open>POST\<close>, contains \<open>/images/create\<close> and has no line
  feed should be kept back, whole, until it has reached the size of the buffer. It is not:
  a window of 37 bytes is sent in the pass that read it, with the warning, and nothing is
  kept.
\<close>

theorem C4_counterexample:
  "length ''POST /v1.40/images/create?fromImage=x'' < bufSize
   \<and> map_option view
        (relay_loop origin_only ''linux/arm64'' (new_relay fresh_conn)
          [Read ''POST /v1.40/images/create?fromImage=x'' None])
     = Some ([], fresh_conn\<lparr>written := ''POST /v1.40/images/create?fromImage=x''\<rparr>,
             [Warning_invalid_or_too_long], None, None, Polling)"
proof
  show "length ''POST /v1.40/images/create?fromImage=x'' < bufSize"
    by (simp add: bufSize_def)
  have "relay_windows origin_only ''linux/arm64'' 4096 ([], fresh_conn, [], None, None, Polling)
       [Read ''POST /v1.40/images/create?fromImage=x'' None]
     = Some ([], fresh_conn\<lparr>written := ''POST /v1.40/images/create?fromImage=x''\<rparr>,
             [Warning_invalid_or_too_long], None, None, Polling)"
    by code_simp
  then show "map_option view
        (relay_loop origin_only ''linux/arm64'' (new_relay fresh_conn)
          [Read ''POST /v1.40/images/create?fromImage=x'' None])
     = Some ([], fresh_conn\<lparr>written := ''POST /v1.40/images/create?fromImage=x''\<rparr>,
             [Warning_invalid_or_too_long], None, None, Polling)"
    by (simp only: relay_refines_new)
qed

text \<open>
  C4, as the code has it: whatever its size, a window that starts with \<open>POST\<close>, contains
  \<open>/images/create\<close> and has no line feed is sent whole and unchanged in the same pass,
  the warning is logged, and no byte is kept for the next pass.
\<close>

theorem C4_unterminated_window_is_forwarded_at_once:
  assumes "bytesRead \<le> length buf"
    and "bytes_Index (take bytesRead buf) ''POST'' = 0"
    and "bytes_Contains (take bytesRead buf) ''/images/create''"
    and "bytes_Index (take bytesRead buf) [CHR 0x0A] < 0"
  shows "scan other platform buf bytesRead
     = (take bytesRead buf, buf, 0, [Warning_invalid_or_too_long])"
  using assms by (rule scan_no_terminator)

theorem C4_witness:
  "37 \<le> length (''POST /v1.40/images/create?fromImage=x'' @ replicate 4059 (CHR 0x00))
   \<and> bytes_Index (take 37 (''POST /v1.40/images/create?fromImage=x'' @ replicate 4059 (CHR 0x00)))
        ''POST'' = 0
   \<and> bytes_Contains (take 37 (''POST /v1.40/images/create?fromImage=x'' @ replicate 4059 (CHR 0x00)))
        ''/images/create''
   \<and> bytes_Index (take 37 (''POST /v1.40/images/create?fromImage=x'' @ replicate 4059 (CHR 0x00)))
        [CHR 0x0A] < 0
   \<and> scan origin_only ''linux/arm64''
        (''POST /v1.40/images/create?fromImage=x'' @ replicate 4059 (CHR 0x00)) 37
     = (take 37 (''POST /v1.40/images/create?fromImage=x'' @ replicate 4059 (CHR 0x00)),
        ''POST /v1.40/images/create?fromImage=x'' @ replicate 4059 (CHR 0x00), 0,
        [Warning_invalid_or_too_long])"
proof -
  let ?buf = "''POST /v1.40/images/create?fromImage=x'' @ replicate 4059 (CHR 0x00)"
  have t: "take 37 ?buf = ''POST /v1.40/images/create?fromImage=x''" by simp
  have h1: "37 \<le> length ?buf" by simp
  have h2: "bytes_Index (take 37 ?buf) ''POST'' = 0" unfolding t by code_simp
  have h3: "bytes_Contains (take 37 ?buf) ''/images/create''" unfolding t by code_simp
  have h4: "bytes_Index (take 37 ?buf) [CHR 0x0A] < 0" unfolding t by code_simp
  from h1 h2 h3 h4
    C4_unterminated_window_is_forwarded_at_once [OF h1 h2 h3 h4, of origin_only "''linux/arm64''"]
  show ?thesis by blast
qed

text \<open>
  C7. A first line that is not made of exactly three tokens should be forwarded
  unchanged. A line of four tokens is rewritten all the same: \<open>bytes.SplitN\<close> with
  \<open>n = 3\<close> leaves everything after the second space in the third part.
\<close>

theorem C7_counterexample:
  "injectPlatform origin_only ''POST /v1.40/images/create?fromImage=x HTTP/1.1 extra''
       ''linux/arm64''
     = Inr ''POST /v1.40/images/create?fromImage=x&platform=linux%2Farm64 HTTP/1.1 extra''"
  by code_simp

text \<open>
  C7, as the code has it: \<open>injectPlatform\<close> returns the error \<open>invalid HTTP request\<close>
  exactly when the line has fewer than two space bytes, that is fewer than three parts
  when cut at single spaces. A line with more parts is not rejected for that.
\<close>

theorem C7_too_few_fields_is_the_only_malformed_line:
  "(injectPlatform other line platform = Inl InvalidHTTPRequest)
     = (strings_Count line CHR '' '' < 2)"
  by (rule injectPlatform_invalid_iff)

text \<open>
  C9. In a pass whose window starts with \<open>POST\<close>, contains \<open>/images/create\<close> and a
  line feed, and whose first line \<open>injectPlatform\<close> rejects with any error: \<open>sendAll\<close>
  is given the window itself, the warning is logged, nothing is kept, and the loop goes
  on with the next event unless the read or the write returned an error, as in any other
  pass. The error of \<open>injectPlatform\<close> is in the log only.
\<close>

theorem C9_parse_error_fails_open:
  assumes inv: "dirtyBytes r \<le> length (buffer r)"
    and fits: "length data \<le> length (buffer r) - dirtyBytes r"
    and post: "bytes_Index (window r data) ''POST'' = 0"
    and marker: "bytes_Contains (window r data) ''/images/create''"
    and nl: "bytes_Index (window r data) [CHR 0x0A] = int j"
    and err: "injectPlatform other (take j (window r data)) platform = Inl err"
    and sent: "sendAll (window r data) (dockerConn r) = Some (werr, c')"
  shows "relay_loop other platform r (Read data rerr # evs) =
     (let rerr' = (if rerr = Some Timeout then None else rerr);
          r' = r\<lparr>buffer := window r data @ drop (length (window r data)) (buffer r),
                 dirtyBytes := 0, dockerConn := c',
                 logs := logs r @ [Warning_unable_to_inject (take j (window r data)) err],
                 readErr := rerr', writeErr := werr\<rparr>
      in if failed rerr' \<or> failed werr then Some (leave r')
         else relay_loop other platform r' evs)"
proof -
  let ?w = "window r data"
  let ?buf = "take (dirtyBytes r) (buffer r) @ data @ drop (dirtyBytes r + length data) (buffer r)"
  let ?n = "length data + dirtyBytes r"
  have lw: "length ?w = ?n" using inv by (simp add: window_def)
  have buf: "?buf = ?w @ drop (length ?w) (buffer r)" using inv by (simp add: window_def add.commute)
  have tw: "take ?n ?buf = ?w" using inv by (simp add: window_def)
  have nle: "?n \<le> length ?buf" using inv fits by simp
  have cp: "bytes_Contains ?w ''POST''" using post by (simp add: bytes_Contains_iff)
  have ne: "?n \<noteq> 0"
    using bytes_Index_nonempty_lt [of "''POST''" ?w] post lw by auto
  have ib: "bytes_Index ?buf ''POST'' = 0"
    using bytes_Index_take [of ?n ?buf "''POST''"] cp post tw by simp
  have "scan other platform ?buf ?n
      = (take ?n ?buf, ?buf, 0, [Warning_unable_to_inject (take j (take ?n ?buf)) err])"
    by (rule scan_inject_error) (simp_all only: tw post marker nl err)
  then have sc: "scan other platform ?buf ?n
      = (?w, ?buf, 0, [Warning_unable_to_inject (take j ?w) err])"
    by (simp only: tw)
  have nf: "\<not> length (buffer r) - dirtyBytes r < length data" using fits by simp
  show ?thesis
    using nf ne sc sent by (auto simp: Let_def buf [symmetric])
qed

theorem C9_witness:
  "dirtyBytes (new_relay fresh_conn) \<le> length (buffer (new_relay fresh_conn))
   \<and> length (''POST /images/create'' @ [CHR 0x0A])
        \<le> length (buffer (new_relay fresh_conn)) - dirtyBytes (new_relay fresh_conn)
   \<and> bytes_Index (window (new_relay fresh_conn) (''POST /images/create'' @ [CHR 0x0A])) ''POST'' = 0
   \<and> bytes_Contains (window (new_relay fresh_conn) (''POST /images/create'' @ [CHR 0x0A]))
        ''/images/create''
   \<and> bytes_Index (window (new_relay fresh_conn) (''POST /images/create'' @ [CHR 0x0A])) [CHR 0x0A]
        = int 19
   \<and> injectPlatform origin_only
        (take 19 (window (new_relay fresh_conn) (''POST /images/create'' @ [CHR 0x0A])))
        ''linux/arm64'' = Inl InvalidHTTPRequest
   \<and> sendAll (window (new_relay fresh_conn) (''POST /images/create'' @ [CHR 0x0A]))
        (dockerConn (new_relay fresh_conn))
       = Some (None, fresh_conn\<lparr>written := ''POST /images/create'' @ [CHR 0x0A]\<rparr>)
   \<and> map_option view
        (relay_loop origin_only ''linux/arm64'' (new_relay fresh_conn)
          [Read (''POST /images/create'' @ [CHR 0x0A]) None])
       = Some ([], fresh_conn\<lparr>written := ''POST /images/create'' @ [CHR 0x0A]\<rparr>,
               [Warning_unable_to_inject ''POST /images/create'' InvalidHTTPRequest],
               None, None, Polling)"
proof -
  let ?r = "new_relay fresh_conn"
  let ?d = "''POST /images/create'' @ [CHR 0x0A]"
  have h1: "dirtyBytes ?r \<le> length (buffer ?r)" by (simp add: new_relay_def)
  have h2: "length ?d \<le> length (buffer ?r) - dirtyBytes ?r"
    by (simp add: new_relay_def bufSize_def)
  have h3: "bytes_Index (window ?r ?d) ''POST'' = 0"
    unfolding window_new_relay by code_simp
  have h4: "bytes_Contains (window ?r ?d) ''/images/create''"
    unfolding window_new_relay by code_simp
  have h5: "bytes_Index (window ?r ?d) [CHR 0x0A] = int 19"
    unfolding window_new_relay by code_simp
  have h6: "injectPlatform origin_only (take 19 (window ?r ?d)) ''linux/arm64''
      = Inl InvalidHTTPRequest"
    unfolding window_new_relay by code_simp
  have h7: "sendAll (window ?r ?d) (dockerConn ?r) = Some (None, fresh_conn\<lparr>written := ?d\<rparr>)"
    unfolding window_new_relay by (simp add: new_relay_def sendAll_reliable fresh_conn_def)
  have t: "take 19 (window ?r ?d) = ''POST /images/create''"
    unfolding window_new_relay by simp
  have "map_option view (relay_loop origin_only ''linux/arm64'' ?r [Read ?d None])
      = Some ([], fresh_conn\<lparr>written := ?d\<rparr>,
              [Warning_unable_to_inject ''POST /images/create'' InvalidHTTPRequest],
              None, None, Polling)"
    unfolding C9_parse_error_fails_open [OF h1 h2 h3 h4 h5 h6 h7, of None "[]"] t
    by (simp add: Let_def failed_def view_def leftover_def new_relay_def)
  with h1 h2 h3 h4 h5 h6 h7 show ?thesis by blast
qed

text \<open>
  C10. In every pass, the bytes given to \<open>sendAll\<close> followed by the bytes kept at the
  start of the buffer are the window \<open>buffer[:bytesRead]\<close>, except when a line was
  rewritten (the pass that logs the injection): then the bytes given to \<open>sendAll\<close> are
  the rewritten form of the window up to its first line feed, and the bytes kept are the
  window from that line feed on.
\<close>

theorem C10_forwarded_and_kept_bytes_partition_the_window:
  assumes "bytesRead \<le> length buf"
    and "scan other platform buf bytesRead = (readBuf, buf', dirty', logged)"
  shows "(Info_injected \<notin> set logged
            \<longrightarrow> readBuf @ take dirty' buf' = take bytesRead buf)
       \<and> (Info_injected \<in> set logged
            \<longrightarrow> (\<exists>j. bytes_Index (take bytesRead buf) ''POST'' = 0
                   \<and> bytes_Index (take bytesRead buf) [CHR 0x0A] = int j
                   \<and> injectPlatform other (take j (take bytesRead buf)) platform = Inr readBuf
                   \<and> take dirty' buf' = drop j (take bytesRead buf)))"
proof -
  let ?w = "take bytesRead buf"
  obtain fwd left lg where sw: "scan_window other platform ?w = (fwd, left, lg)"
    by (cases "scan_window other platform ?w") auto
  from scan_refines [OF assms(1) sw] assms(2)
  have eq: "readBuf = fwd" "dirty' = length left" "logged = lg" "take dirty' buf' = left"
    by auto
  show ?thesis
  proof (cases "Info_injected \<in> set lg")
    case False
    with sw have "fwd @ left = ?w" by (rule scan_window_partition)
    with False eq show ?thesis by simp
  next
    case True
    with sw have "bytes_Index ?w ''POST'' = 0 \<and> 0 \<le> bytes_Index ?w [CHR 0x0A]
        \<and> injectPlatform other (take (nat (bytes_Index ?w [CHR 0x0A])) ?w) platform = Inr fwd
        \<and> left = drop (nat (bytes_Index ?w [CHR 0x0A])) ?w"
      by (rule scan_window_injected)
    then have "\<exists>j. bytes_Index ?w ''POST'' = 0 \<and> bytes_Index ?w [CHR 0x0A] = int j
        \<and> injectPlatform other (take j ?w) platform = Inr fwd \<and> left = drop j ?w"
      by (intro exI [of _ "nat (bytes_Index ?w [CHR 0x0A])"]) simp
    with True eq show ?thesis by simp
  qed
qed

theorem C10_witness:
  "48 \<le> length (''POST /v1.40/images/create?fromImage=x HTTP/1.1'' @ [CHR 0x0D, CHR 0x0A]
           @ replicate 4048 (CHR 0x00))
   \<and> scan origin_only ''linux/arm64''
        (''POST /v1.40/images/create?fromImage=x HTTP/1.1'' @ [CHR 0x0D, CHR 0x0A]
           @ replicate 4048 (CHR 0x00)) 48
     = (''POST /v1.40/images/create?fromImage=x&platform=linux%2Farm64 HTTP/1.1'' @ [CHR 0x0D],
        CHR 0x0A # ''OST /v1.40/images/create?fromImage=x HTTP/1.1'' @ [CHR 0x0D, CHR 0x0A]
           @ replicate 4048 (CHR 0x00), 1, [Info_injected])
   \<and> (\<exists>j. bytes_Index (take 48 (''POST /v1.40/images/create?fromImage=x HTTP/1.1''
                  @ [CHR 0x0D, CHR 0x0A] @ replicate 4048 (CHR 0x00))) ''POST'' = 0
          \<and> bytes_Index (take 48 (''POST /v1.40/images/create?fromImage=x HTTP/1.1''
                  @ [CHR 0x0D, CHR 0x0A] @ replicate 4048 (CHR 0x00))) [CHR 0x0A] = int j
          \<and> injectPlatform origin_only
                (take j (take 48 (''POST /v1.40/images/create?fromImage=x HTTP/1.1''
                  @ [CHR 0x0D, CHR 0x0A] @ replicate 4048 (CHR 0x00)))) ''linux/arm64''
              = Inr (''POST /v1.40/images/create?fromImage=x&platform=linux%2Farm64 HTTP/1.1''
                     @ [CHR 0x0D])
          \<and> take 1 (CHR 0x0A # ''OST /v1.40/images/create?fromImage=x HTTP/1.1''
                  @ [CHR 0x0D, CHR 0x0A] @ replicate 4048 (CHR 0x00))
              = drop j (take 48 (''POST /v1.40/images/create?fromImage=x HTTP/1.1''
                  @ [CHR 0x0D, CHR 0x0A] @ replicate 4048 (CHR 0x00))))"
proof -
  let ?buf = "''POST /v1.40/images/create?fromImage=x HTTP/1.1'' @ [CHR 0x0D, CHR 0x0A]
           @ replicate 4048 (CHR 0x00)"
  have h1: "48 \<le> length ?buf" by simp
  have h2: "scan origin_only ''linux/arm64'' ?buf 48
     = (''POST /v1.40/images/create?fromImage=x&platform=linux%2Farm64 HTTP/1.1'' @ [CHR 0x0D],
        CHR 0x0A # ''OST /v1.40/images/create?fromImage=x HTTP/1.1'' @ [CHR 0x0D, CHR 0x0A]
           @ replicate 4048 (CHR 0x00), 1, [Info_injected])"
    by code_simp
  from C10_forwarded_and_kept_bytes_partition_the_window [OF h1 h2]
  have "\<exists>j. bytes_Index (take 48 ?buf) ''POST'' = 0
          \<and> bytes_Index (take 48 ?buf) [CHR 0x0A] = int j
          \<and> injectPlatform origin_only (take j (take 48 ?buf)) ''linux/arm64''
              = Inr (''POST /v1.40/images/create?fromImage=x&platform=linux%2Farm64 HTTP/1.1''
                     @ [CHR 0x0D])
          \<and> take 1 (CHR 0x0A # ''OST /v1.40/images/create?fromImage=x HTTP/1.1''
                  @ [CHR 0x0D, CHR 0x0A] @ replicate 4048 (CHR 0x00))
              = drop j (take 48 ?buf)"
    by (simp only: list.set_intros simp_thms)
  with h1 h2 show ?thesis by blast
qed



text \<open>
  C1. Start from a loop that keeps nothing back (as \<open>handleConnection\<close> starts it), with
  an upstream connection that accepts every write, and let no \<open>Read\<close> return bytes that
  hold both \<open>POST\<close> and \<open>/images/create\<close>. Then nothing is ever kept back, so every
  window is the bytes of one \<open>Read\<close>, and the loop returns with the upstream connection
  having received the bytes of all the reads the loop got to, in their order and unchanged.
  (A \<open>Read\<close> returns at most as many bytes as the buffer holds.)
\<close>

theorem C1_plain_traffic_is_relayed_unchanged:
  assumes "dirtyBytes r = 0" and "length (buffer r) = bufSize"
    and "script (dockerConn r) = []" and "\<not> closed (dockerConn r)"
    and "list_all plain evs"
  shows "\<exists>r'. relay_loop other platform r evs = Some r'
           \<and> written (dockerConn r')
               = written (dockerConn r) @ concat (map bytes_of (performed evs))"
proof -
  have v: "view r = ([], dockerConn r, logs r, readErr r, writeErr r, status r)"
    using assms(1) by (simp add: view_def leftover_def)
  have w: "map_option (\<lambda>v. written (fst (snd v)))
        (relay_windows other platform bufSize (view r) evs)
      = Some (written (dockerConn r) @ concat (map bytes_of (performed evs)))"
    unfolding v using assms(3,4,5) by (rule relay_windows_plain)
  have "map_option view (relay_loop other platform r evs)
      = relay_windows other platform (length (buffer r)) (view r) evs"
    using assms(1) by (intro relay_refines) simp
  with w assms(2) obtain r' where r': "relay_loop other platform r evs = Some r'"
    and wr: "written (fst (snd (view r')))
       = written (dockerConn r) @ concat (map bytes_of (performed evs))"
    by (cases "relay_loop other platform r evs") auto
  from wr have "written (dockerConn r')
      = written (dockerConn r) @ concat (map bytes_of (performed evs))"
    by (simp add: view_def)
  with r' show ?thesis by simp
qed

text \<open>
  A run of five events: the loop is left at the fourth, which returns \<open>EOF\<close>, and the
  bytes of the first four have gone out.
\<close>

theorem C1_witness:
  "dirtyBytes (new_relay fresh_conn) = 0
   \<and> length (buffer (new_relay fresh_conn)) = bufSize
   \<and> script (dockerConn (new_relay fresh_conn)) = []
   \<and> \<not> closed (dockerConn (new_relay fresh_conn))
   \<and> list_all plain
        [Read (''GET /_ping HTTP/1.1'' @ [CHR 0x0D, CHR 0x0A]) None, Read [] (Some Timeout),
         Read ''POST /containers/create'' None, Read ''tail'' (Some EOF), Read ''late'' None]
   \<and> (\<exists>r'. relay_loop origin_only ''linux/arm64'' (new_relay fresh_conn)
        [Read (''GET /_ping HTTP/1.1'' @ [CHR 0x0D, CHR 0x0A]) None, Read [] (Some Timeout),
         Read ''POST /containers/create'' None, Read ''tail'' (Some EOF), Read ''late'' None]
          = Some r'
        \<and> written (dockerConn r')
            = ''GET /_ping HTTP/1.1'' @ [CHR 0x0D, CHR 0x0A] @ ''POST /containers/createtail'')"
proof -
  let ?r = "new_relay fresh_conn"
  let ?evs = "[Read (''GET /_ping HTTP/1.1'' @ [CHR 0x0D, CHR 0x0A]) None, Read [] (Some Timeout),
         Read ''POST /containers/create'' None, Read ''tail'' (Some EOF), Read ''late'' None]"
  have h1: "dirtyBytes ?r = 0" by (simp add: new_relay_def)
  have h2: "length (buffer ?r) = bufSize" by (simp add: new_relay_def)
  have h3: "script (dockerConn ?r) = []" by (simp add: new_relay_def fresh_conn_def)
  have h4: "\<not> closed (dockerConn ?r)" by (simp add: new_relay_def fresh_conn_def)
  have h5: "list_all plain ?evs" by code_simp
  have e: "written (dockerConn ?r) @ concat (map bytes_of (performed ?evs))
      = ''GET /_ping HTTP/1.1'' @ [CHR 0x0D, CHR 0x0A] @ ''POST /containers/createtail''"
    by (simp add: new_relay_def fresh_conn_def)
  from C1_plain_traffic_is_relayed_unchanged [OF h1 h2 h3 h4 h5, of origin_only "''linux/arm64''"]
  have "\<exists>r'. relay_loop origin_only ''linux/arm64'' ?r ?evs = Some r'
        \<and> written (dockerConn r')
            = ''GET /_ping HTTP/1.1'' @ [CHR 0x0D, CHR 0x0A] @ ''POST /containers/createtail''"
    unfolding e .
  with h1 h2 h3 h4 h5 show ?thesis by blast
qed




end
